theory Spec2Isabelle
  imports Main "HOL-Library.AList"
begin

section \<open>Python values, exceptions and the observable trace\<close>

text \<open>
  The rule engine of \<^verbatim>\<open>rules/processor.py\<close> and the batch loop of \<^verbatim>\<open>main.py\<close> are
  embedded as functions that thread a trace of observable events. Every \<^verbatim>\<open>raise\<close> of
  the source is a value \<open>Inl e\<close> of a result type \<open>exn + 'a\<close>; every \<^verbatim>\<open>except\<close> clause
  is a case distinction on it.

  Strings are ASCII character lists. Exceptions are the subclasses of
  \<^verbatim>\<open>Exception\<close> that the code can meet; \<open>OtherError\<close> stands for any exception a
  collaborator (the Gmail client, sqlite) raises.
\<close>

datatype exn =
    KeyError string
  | IndexError
  | ValueError
  | AttributeError
  | TypeError
  | OverflowError
  | OtherError string

text \<open>
  The values found in an email dictionary. \<open>PDatetime t aware\<close> is a
  \<^verbatim>\<open>datetime\<close> whose wall-clock reading is \<open>t\<close> microseconds after
  0001-01-01 00:00:00 (\<^verbatim>\<open>datetime.min\<close>); \<open>aware\<close> says whether \<^verbatim>\<open>tzinfo\<close> is set.
  The other constructors are values without a \<^verbatim>\<open>tzinfo\<close> attribute.
\<close>

datatype pyval =
    PNone
  | PBool bool
  | PInt int
  | PStr string
  | PList "pyval list"
  | PDatetime int bool

text \<open>A dictionary with string keys, in insertion order; \<open>map_of\<close> is the lookup.\<close>

type_synonym email = "(string \<times> pyval) list"

type_synonym action = "(string \<times> string) list"

definition get_item :: "(string \<times> 'a) list \<Rightarrow> string \<Rightarrow> exn + 'a" where
  \<comment> \<open>\<^verbatim>\<open>d[k]\<close>: KeyError when the key is absent\<close>
  "get_item d k = (case map_of d k of None \<Rightarrow> Inl (KeyError k) | Some v \<Rightarrow> Inr v)"

text \<open>Calls on the two collaborators, with the arguments the code passes.\<close>

datatype call =
    GmailMarkAsRead pyval bool
  | GmailMoveMessage pyval string
  | DbMarkAsRead pyval bool
  | DbUpdateLabels pyval string
  | DbAddEmailsBatch "email list"
  | DbMarkAsProcessedBatch "pyval list"

datatype level = ERROR | INFO | DEBUG

text \<open>The log lines of the source, by the place that writes them.\<close>

datatype logmsg =
    FieldNotFound string "string option"   \<comment> \<open>processor.py, line 36\<close>
  | ErrorEvaluatingDate exn                \<comment> \<open>processor.py, line 81\<close>
  | ErrorApplyingActions string exn        \<comment> \<open>processor.py, line 137, with the rule name\<close>
  | ErrorLoadingRules exn                  \<comment> \<open>processor.py, line 166\<close>
  | SuccessfullyApplied string             \<comment> \<open>processor.py, line 179\<close>
  | FailedToApply string                   \<comment> \<open>processor.py, line 183\<close>
  | ErrorProcessingEmail pyval exn         \<comment> \<open>processor.py, line 187, and main.py, line 41\<close>
  | ProcessingBatch nat                    \<comment> \<open>main.py, line 23\<close>
  | MarkedProcessed nat nat                \<comment> \<open>main.py, line 51\<close>
  | ErrorProcessingBatch exn               \<comment> \<open>main.py, line 57\<close>

text \<open>
  An event is a collaborator call that returned (\<open>Done\<close>), one that raised
  (\<open>Raised\<close>), a log line, or a reading of the clock. A trace lists the events in the
  order they happened, oldest first.
\<close>

datatype event =
    Done call
  | Raised call exn
  | Log level logmsg
  | ReadClock

type_synonym trace = "event list"

text \<open>
  What the code cannot decide itself is read from the environment, as a function of
  the history so far: the instant \<^verbatim>\<open>datetime.now()\<close> returns (in microseconds after
  \<^verbatim>\<open>datetime.min\<close>), whether a collaborator call raises, and the text
  \<^verbatim>\<open>str(v)\<close> of a value that is not a string.
\<close>

record env =
  clock :: "trace \<Rightarrow> int"
  raises :: "trace \<Rightarrow> call \<Rightarrow> exn option"
  str_of :: "pyval \<Rightarrow> string"

definition do_call :: "env \<Rightarrow> call \<Rightarrow> trace \<Rightarrow> (exn + unit) \<times> trace" where
  "do_call ev c tr =
     (case raises ev tr c of
        None \<Rightarrow> (Inr (), tr @ [Done c])
      | Some e \<Rightarrow> (Inl e, tr @ [Raised c e]))"

section \<open>The string and date primitives the engine uses\<close>

text \<open>
  The built-in operations of Python that the engine calls, on ASCII strings:
  \<^verbatim>\<open>lower\<close>, \<^verbatim>\<open>in\<close>, \<^verbatim>\<open>split\<close>, \<^verbatim>\<open>int\<close> and the subtraction of a number of days
  from a datetime. \<^verbatim>\<open>int\<close> rejects a literal of more than 4300 digits, the default
  of \<^verbatim>\<open>sys.get_int_max_str_digits()\<close>; underscores and the sign are not counted.
\<close>

definition lower_char :: "char \<Rightarrow> char" where
  "lower_char c =
     (let n = (of_char c :: nat) in if 65 \<le> n \<and> n \<le> 90 then char_of (n + 32) else c)"

definition lower :: "string \<Rightarrow> string" where
  \<comment> \<open>\<^verbatim>\<open>s.lower()\<close>\<close>
  "lower s = map lower_char s"

fun starts_with :: "string \<Rightarrow> string \<Rightarrow> bool" where
  "starts_with s [] = True"
| "starts_with [] (p # ps) = False"
| "starts_with (c # cs) (p # ps) = (c = p \<and> starts_with cs ps)"

fun is_substring :: "string \<Rightarrow> string \<Rightarrow> bool" where
  \<comment> \<open>\<^verbatim>\<open>a in b\<close> on strings\<close>
  "is_substring a [] = (a = [])"
| "is_substring a (c # cs) = (starts_with (c # cs) a \<or> is_substring a cs)"

definition is_space :: "char \<Rightarrow> bool" where
  \<comment> \<open>the ASCII characters \<^verbatim>\<open>str.split()\<close> splits at\<close>
  "is_space c = (let n = (of_char c :: nat) in (9 \<le> n \<and> n \<le> 13) \<or> (28 \<le> n \<and> n \<le> 32))"

definition first_token :: "string \<Rightarrow> exn + string" where
  \<comment> \<open>\<^verbatim>\<open>s.split()[0]\<close>: IndexError when the string has no token\<close>
  "first_token s =
     (let t = takeWhile (\<lambda>c. \<not> is_space c) (dropWhile is_space s)
      in if t = [] then Inl IndexError else Inr t)"

definition is_digit :: "char \<Rightarrow> bool" where
  "is_digit c = (let n = (of_char c :: nat) in 48 \<le> n \<and> n \<le> 57)"

definition digit_val :: "char \<Rightarrow> int" where
  "digit_val c = int (of_char c) - 48"

fun digits_acc :: "int \<Rightarrow> string \<Rightarrow> int option" where
  \<comment> \<open>the rest of a decimal literal; one underscore may stand between two digits\<close>
  "digits_acc n [] = Some n"
| "digits_acc n [c] = (if is_digit c then Some (10 * n + digit_val c) else None)"
| "digits_acc n (c # d # cs) =
     (if is_digit c then digits_acc (10 * n + digit_val c) (d # cs)
      else if c = CHR ''_'' \<and> is_digit d then digits_acc (10 * n + digit_val d) cs
      else None)"

definition max_str_digits :: nat where
  "max_str_digits = 4300"

definition digits_value :: "string \<Rightarrow> int option" where
  \<comment> \<open>the value of an unsigned decimal literal; None where \<^verbatim>\<open>int\<close> raises ValueError\<close>
  "digits_value s =
     (if length (filter is_digit s) > max_str_digits then None
      else case s of
             [] \<Rightarrow> None
           | c # cs \<Rightarrow> if is_digit c then digits_acc (digit_val c) cs else None)"

definition py_int :: "string \<Rightarrow> exn + int" where
  \<comment> \<open>\<^verbatim>\<open>int(s)\<close> on a token without white space: an optional sign, then the digits\<close>
  "py_int s =
     (case s of
        [] \<Rightarrow> Inl ValueError
      | c # cs \<Rightarrow>
          if c = CHR ''-'' then
            (case digits_value cs of None \<Rightarrow> Inl ValueError | Some n \<Rightarrow> Inr (- n))
          else if c = CHR ''+'' then
            (case digits_value cs of None \<Rightarrow> Inl ValueError | Some n \<Rightarrow> Inr n)
          else
            (case digits_value (c # cs) of None \<Rightarrow> Inl ValueError | Some n \<Rightarrow> Inr n))"

definition us_per_day :: int where
  "us_per_day = 86400000000"

definition max_us :: int where
  \<comment> \<open>one microsecond past \<^verbatim>\<open>datetime.max\<close>: 3652059 days after \<^verbatim>\<open>datetime.min\<close>\<close>
  "max_us = 3652059 * us_per_day"

definition sub_days :: "int \<Rightarrow> int \<Rightarrow> exn + int" where
  \<comment> \<open>\<^verbatim>\<open>now - timedelta(days=days)\<close>: OverflowError when the day count or the result
      is out of range\<close>
  "sub_days now days =
     (if \<bar>days\<bar> > 999999999 then Inl OverflowError
      else let r = now - days * us_per_day
           in if 0 \<le> r \<and> r < max_us then Inr r else Inl OverflowError)"

section \<open>RuleCondition\<close>

record condition =
  c_field :: string
  c_predicate :: string
  c_value :: string

definition EMAIL_FIELD_MAPPING :: "string \<Rightarrow> string option" where
  "EMAIL_FIELD_MAPPING =
     map_of [(''from'', ''sender''), (''sender'', ''sender''), (''to'', ''recipient''),
             (''recipient'', ''recipient''), (''subject'', ''subject''), (''body'', ''body''),
             (''received_date'', ''received_date'')]"

definition py_str :: "env \<Rightarrow> pyval \<Rightarrow> string" where
  \<comment> \<open>\<^verbatim>\<open>str(v)\<close>\<close>
  "py_str ev v = (case v of PStr s \<Rightarrow> s | _ \<Rightarrow> str_of ev v)"

definition evaluate_string :: "condition \<Rightarrow> string \<Rightarrow> bool" where
  "evaluate_string c field_value =
     (if c_predicate c = ''contains'' then is_substring (lower (c_value c)) (lower field_value)
      else if c_predicate c = ''does_not_contain'' then
        \<not> is_substring (lower (c_value c)) (lower field_value)
      else if c_predicate c = ''equals'' then lower (c_value c) = lower field_value
      else if c_predicate c = ''does_not_equal'' then lower (c_value c) \<noteq> lower field_value
      else False)"

definition date_body :: "env \<Rightarrow> condition \<Rightarrow> pyval \<Rightarrow> trace \<Rightarrow> (exn + bool) \<times> trace" where
  \<comment> \<open>the \<^verbatim>\<open>try\<close> block of \<^verbatim>\<open>_evaluate_date\<close>\<close>
  "date_body ev c field_value tr =
     (case field_value of
        PDatetime t aware \<Rightarrow>
          (let now = clock ev tr; tr1 = tr @ [ReadClock] in
           if is_substring ''days'' (c_value c) then
             (case first_token (c_value c) of
                Inl e \<Rightarrow> (Inl e, tr1)
              | Inr tok \<Rightarrow>
                 (case py_int tok of
                    Inl e \<Rightarrow> (Inl e, tr1)
                  | Inr days \<Rightarrow>
                     (case sub_days now days of
                        Inl e \<Rightarrow> (Inl e, tr1)
                      | Inr compare_date \<Rightarrow>
                          if c_predicate c = ''less_than'' then (Inr (t > compare_date), tr1)
                          else if c_predicate c = ''greater_than'' then
                            (Inr (t < compare_date), tr1)
                          else (Inr False, tr1))))
           else (Inr False, tr1))
      | _ \<Rightarrow> (Inl AttributeError, tr))"

definition evaluate_date :: "env \<Rightarrow> condition \<Rightarrow> pyval \<Rightarrow> trace \<Rightarrow> (exn + bool) \<times> trace" where
  \<comment> \<open>\<^verbatim>\<open>except (ValueError, AttributeError)\<close>: log and fall through to \<^verbatim>\<open>return False\<close>\<close>
  "evaluate_date ev c field_value tr =
     (case date_body ev c field_value tr of
        (Inr b, tr1) \<Rightarrow> (Inr b, tr1)
      | (Inl e, tr1) \<Rightarrow>
          if e = ValueError \<or> e = AttributeError then
            (Inr False, tr1 @ [Log ERROR (ErrorEvaluatingDate e)])
          else (Inl e, tr1))"

definition cond_evaluate :: "env \<Rightarrow> condition \<Rightarrow> email \<Rightarrow> trace \<Rightarrow> (exn + bool) \<times> trace" where
  \<comment> \<open>\<^verbatim>\<open>RuleCondition.evaluate\<close>\<close>
  "cond_evaluate ev c email tr =
     (let email_field = EMAIL_FIELD_MAPPING (c_field c) in
      case email_field of
        None \<Rightarrow> (Inr False, tr @ [Log ERROR (FieldNotFound (c_field c) email_field)])
      | Some k \<Rightarrow>
         (case (if k = [] then None else map_of email k) of
            None \<Rightarrow> (Inr False, tr @ [Log ERROR (FieldNotFound (c_field c) email_field)])
          | Some field_value \<Rightarrow>
              if c_field c = ''received_date'' then evaluate_date ev c field_value tr
              else (Inr (evaluate_string c (py_str ev field_value)), tr)))"

section \<open>Rule\<close>

record rule =
  r_name :: string
  r_conditions :: "condition list"
  r_predicate :: string
  r_actions :: "action list"

fun eval_conditions ::
  "env \<Rightarrow> condition list \<Rightarrow> email \<Rightarrow> trace \<Rightarrow> (exn + bool list) \<times> trace" where
  \<comment> \<open>the loop of \<^verbatim>\<open>Rule.evaluate\<close> that fills \<^verbatim>\<open>results\<close>\<close>
  "eval_conditions ev [] email tr = (Inr [], tr)"
| "eval_conditions ev (c # cs) email tr =
     (case cond_evaluate ev c email tr of
        (Inl e, tr1) \<Rightarrow> (Inl e, tr1)
      | (Inr b, tr1) \<Rightarrow>
         (case eval_conditions ev cs email tr1 of
            (Inl e, tr2) \<Rightarrow> (Inl e, tr2)
          | (Inr bs, tr2) \<Rightarrow> (Inr (b # bs), tr2)))"

definition rule_evaluate :: "env \<Rightarrow> rule \<Rightarrow> email \<Rightarrow> trace \<Rightarrow> (exn + bool) \<times> trace" where
  \<comment> \<open>\<^verbatim>\<open>Rule.evaluate\<close>\<close>
  "rule_evaluate ev r email tr =
     (if r_conditions r = [] then (Inr False, tr)
      else
        (case eval_conditions ev (r_conditions r) email tr of
           (Inl e, tr1) \<Rightarrow> (Inl e, tr1)
         | (Inr results, tr1) \<Rightarrow>
             if r_predicate r = ''all'' then (Inr (list_all (\<lambda>b. b) results), tr1)
             else if r_predicate r = ''any'' then (Inr (list_ex (\<lambda>b. b) results), tr1)
             else (Inr False, tr1)))"

definition mark_both :: "env \<Rightarrow> email \<Rightarrow> bool \<Rightarrow> trace \<Rightarrow> (exn + unit) \<times> trace" where
  \<comment> \<open>\<^verbatim>\<open>gmail_service.mark_as_read(email["message_id"], b)\<close>, then
      \<^verbatim>\<open>email_db.mark_as_read(email["message_id"], b)\<close>\<close>
  "mark_both ev email b tr =
     (case get_item email ''message_id'' of
        Inl e \<Rightarrow> (Inl e, tr)
      | Inr mid \<Rightarrow>
         (case do_call ev (GmailMarkAsRead mid b) tr of
            (Inl e, tr1) \<Rightarrow> (Inl e, tr1)
          | (Inr _, tr1) \<Rightarrow> do_call ev (DbMarkAsRead mid b) tr1))"

definition move_both :: "env \<Rightarrow> email \<Rightarrow> action \<Rightarrow> trace \<Rightarrow> (exn + unit) \<times> trace" where
  \<comment> \<open>\<^verbatim>\<open>gmail_service.move_message(email["message_id"], action["label"])\<close>, then
      \<^verbatim>\<open>email_db.update_labels(email["message_id"], action["label"])\<close>\<close>
  "move_both ev email a tr =
     (case get_item email ''message_id'' of
        Inl e \<Rightarrow> (Inl e, tr)
      | Inr mid \<Rightarrow>
         (case get_item a ''label'' of
            Inl e \<Rightarrow> (Inl e, tr)
          | Inr label \<Rightarrow>
             (case do_call ev (GmailMoveMessage mid label) tr of
                (Inl e, tr1) \<Rightarrow> (Inl e, tr1)
              | (Inr _, tr1) \<Rightarrow> do_call ev (DbUpdateLabels mid label) tr1)))"

definition apply_action :: "env \<Rightarrow> action \<Rightarrow> email \<Rightarrow> trace \<Rightarrow> (exn + unit) \<times> trace" where
  \<comment> \<open>one pass through the body of the loop of \<^verbatim>\<open>Rule.apply_actions\<close>\<close>
  "apply_action ev a email tr =
     (case get_item a ''type'' of
        Inl e \<Rightarrow> (Inl e, tr)
      | Inr action_type \<Rightarrow>
          if action_type = ''mark_as_read'' then mark_both ev email True tr
          else if action_type = ''mark_as_unread'' then mark_both ev email False tr
          else if action_type = ''move_message'' then
            (if map_of a ''label'' \<noteq> None then move_both ev email a tr else (Inr (), tr))
          else (Inr (), tr))"

fun apply_action_list :: "env \<Rightarrow> action list \<Rightarrow> email \<Rightarrow> trace \<Rightarrow> (exn + unit) \<times> trace" where
  "apply_action_list ev [] email tr = (Inr (), tr)"
| "apply_action_list ev (a # as) email tr =
     (case apply_action ev a email tr of
        (Inl e, tr1) \<Rightarrow> (Inl e, tr1)
      | (Inr _, tr1) \<Rightarrow> apply_action_list ev as email tr1)"

definition apply_actions :: "env \<Rightarrow> rule \<Rightarrow> email \<Rightarrow> trace \<Rightarrow> (exn + bool) \<times> trace" where
  \<comment> \<open>\<^verbatim>\<open>Rule.apply_actions\<close>: \<^verbatim>\<open>except Exception\<close> logs with the rule name and falls
      through to \<^verbatim>\<open>return False\<close>\<close>
  "apply_actions ev r email tr =
     (case apply_action_list ev (r_actions r) email tr of
        (Inr _, tr1) \<Rightarrow> (Inr True, tr1)
      | (Inl e, tr1) \<Rightarrow> (Inr False, tr1 @ [Log ERROR (ErrorApplyingActions (r_name r) e)]))"

section \<open>RuleProcessor\<close>

fun process_rules :: "env \<Rightarrow> rule list \<Rightarrow> email \<Rightarrow> trace \<Rightarrow> (exn + unit) \<times> trace" where
  \<comment> \<open>the loop of \<^verbatim>\<open>process_email\<close>\<close>
  "process_rules ev [] email tr = (Inr (), tr)"
| "process_rules ev (r # rs) email tr =
     (case rule_evaluate ev r email tr of
        (Inl e, tr1) \<Rightarrow> (Inl e, tr1)
      | (Inr matched, tr1) \<Rightarrow>
          if matched then
            (case apply_actions ev r email tr1 of
               (Inl e, tr2) \<Rightarrow> (Inl e, tr2)
             | (Inr ok, tr2) \<Rightarrow>
                 if ok then
                   process_rules ev rs email (tr2 @ [Log DEBUG (SuccessfullyApplied (r_name r))])
                 else process_rules ev rs email (tr2 @ [Log ERROR (FailedToApply (r_name r))]))
          else process_rules ev rs email tr1)"

definition process_email :: "env \<Rightarrow> rule list \<Rightarrow> email \<Rightarrow> trace \<Rightarrow> (exn + bool) \<times> trace" where
  \<comment> \<open>\<^verbatim>\<open>RuleProcessor.process_email\<close>: the handler formats \<^verbatim>\<open>email['message_id']\<close>
      into its log line before it returns False\<close>
  "process_email ev rules email tr =
     (case process_rules ev rules email tr of
        (Inr _, tr1) \<Rightarrow> (Inr True, tr1)
      | (Inl e, tr1) \<Rightarrow>
         (case get_item email ''message_id'' of
            Inl k \<Rightarrow> (Inl k, tr1)
          | Inr mid \<Rightarrow> (Inr False, tr1 @ [Log ERROR (ErrorProcessingEmail mid e)])))"

subsection \<open>Loading the rules\<close>

text \<open>
  \<^verbatim>\<open>load_rules\<close> reads a JSON document and stores what it finds without checking any
  type. The document is a JSON value (numbers are integers here); what \<^verbatim>\<open>open\<close> and
  \<^verbatim>\<open>json.load\<close> give is that value, or the exception they raised. The rule objects
  built hold JSON values; the functions above evaluate the rules whose fields have the
  types the constructors annotate.
\<close>

datatype json =
    JNull
  | JBool bool
  | JNum int
  | JStr string
  | JArr "json list"
  | JObj "(string \<times> json) list"

definition json_getitem :: "json \<Rightarrow> string \<Rightarrow> exn + json" where
  \<comment> \<open>\<^verbatim>\<open>v[k]\<close> with a string key: only a dictionary accepts it\<close>
  "json_getitem v k = (case v of JObj kvs \<Rightarrow> get_item kvs k | _ \<Rightarrow> Inl TypeError)"

definition json_iter :: "json \<Rightarrow> exn + json list" where
  \<comment> \<open>\<^verbatim>\<open>for x in v\<close>: a list gives its elements, a dictionary its keys, a string its
      characters\<close>
  "json_iter v =
     (case v of
        JArr xs \<Rightarrow> Inr xs
      | JObj kvs \<Rightarrow> Inr (map (\<lambda>kv. JStr (fst kv)) kvs)
      | JStr s \<Rightarrow> Inr (map (\<lambda>c. JStr [c]) s)
      | _ \<Rightarrow> Inl TypeError)"

record loaded_condition =
  lc_field :: json
  lc_predicate :: json
  lc_value :: json

record loaded_rule =
  lr_name :: json
  lr_conditions :: "loaded_condition list"
  lr_predicate :: json
  lr_actions :: json

definition build_condition :: "json \<Rightarrow> exn + loaded_condition" where
  \<comment> \<open>\<^verbatim>\<open>RuleCondition(c["field"], c["predicate"], c["value"])\<close>\<close>
  "build_condition c =
     (case json_getitem c ''field'' of
        Inl e \<Rightarrow> Inl e
      | Inr f \<Rightarrow>
         (case json_getitem c ''predicate'' of
            Inl e \<Rightarrow> Inl e
          | Inr p \<Rightarrow>
             (case json_getitem c ''value'' of
                Inl e \<Rightarrow> Inl e
              | Inr v \<Rightarrow> Inr \<lparr>lc_field = f, lc_predicate = p, lc_value = v\<rparr>)))"

fun build_conditions :: "json list \<Rightarrow> exn + loaded_condition list" where
  "build_conditions [] = Inr []"
| "build_conditions (c # cs) =
     (case build_condition c of
        Inl e \<Rightarrow> Inl e
      | Inr x \<Rightarrow>
         (case build_conditions cs of
            Inl e \<Rightarrow> Inl e
          | Inr xs \<Rightarrow> Inr (x # xs)))"

definition build_rule :: "json \<Rightarrow> exn + loaded_rule" where
  \<comment> \<open>the body of the loop of \<^verbatim>\<open>load_rules\<close>, up to \<^verbatim>\<open>Rule(...)\<close>\<close>
  "build_rule rule_data =
     (case json_getitem rule_data ''conditions'' of
        Inl e \<Rightarrow> Inl e
      | Inr cs \<Rightarrow>
         (case json_iter cs of
            Inl e \<Rightarrow> Inl e
          | Inr items \<Rightarrow>
             (case build_conditions items of
                Inl e \<Rightarrow> Inl e
              | Inr conditions \<Rightarrow>
                 (case json_getitem rule_data ''name'' of
                    Inl e \<Rightarrow> Inl e
                  | Inr n \<Rightarrow>
                     (case json_getitem rule_data ''predicate'' of
                        Inl e \<Rightarrow> Inl e
                      | Inr p \<Rightarrow>
                         (case json_getitem rule_data ''actions'' of
                            Inl e \<Rightarrow> Inl e
                          | Inr acts \<Rightarrow>
                              Inr \<lparr>lr_name = n, lr_conditions = conditions,
                                   lr_predicate = p, lr_actions = acts\<rparr>))))))"

fun load_loop :: "json list \<Rightarrow> loaded_rule list \<Rightarrow> (exn + unit) \<times> loaded_rule list" where
  \<comment> \<open>\<^verbatim>\<open>self.rules.append(rule)\<close> for each entry, until one raises\<close>
  "load_loop [] rules = (Inr (), rules)"
| "load_loop (rule_data # rest) rules =
     (case build_rule rule_data of
        Inl e \<Rightarrow> (Inl e, rules)
      | Inr r \<Rightarrow> load_loop rest (rules @ [r]))"

definition load_body :: "exn + json \<Rightarrow> loaded_rule list \<Rightarrow> (exn + unit) \<times> loaded_rule list" where
  \<comment> \<open>the \<^verbatim>\<open>try\<close> block of \<^verbatim>\<open>load_rules\<close>\<close>
  "load_body file rules =
     (case file of
        Inl e \<Rightarrow> (Inl e, rules)
      | Inr rules_data \<Rightarrow>
         (case json_getitem rules_data ''rules'' of
            Inl e \<Rightarrow> (Inl e, rules)
          | Inr entries \<Rightarrow>
             (case json_iter entries of
                Inl e \<Rightarrow> (Inl e, rules)
              | Inr items \<Rightarrow> load_loop items rules)))"

definition load_rules ::
  "exn + json \<Rightarrow> loaded_rule list \<Rightarrow> trace \<Rightarrow> (exn + unit) \<times> loaded_rule list \<times> trace" where
  \<comment> \<open>\<^verbatim>\<open>except Exception\<close>: log, and return normally\<close>
  "load_rules file rules tr =
     (case load_body file rules of
        (Inr _, rules1) \<Rightarrow> (Inr (), rules1, tr)
      | (Inl e, rules1) \<Rightarrow> (Inr (), rules1, tr @ [Log ERROR (ErrorLoadingRules e)]))"

definition RuleProcessor_init ::
  "exn + json \<Rightarrow> trace \<Rightarrow> (exn + unit) \<times> loaded_rule list \<times> trace" where
  \<comment> \<open>\<^verbatim>\<open>self.rules = []\<close>, then \<^verbatim>\<open>self.load_rules()\<close>\<close>
  "RuleProcessor_init file tr = load_rules file [] tr"

section \<open>The batch loop of main.py\<close>

text \<open>
  One pass of the loop over the fetched batches (main.py, lines 23 to 58). The progress
  bar and the batch number only feed the display and are left out. The emails of a
  batch are distinct dictionaries, changed in place by the first loop.
\<close>

fun join_comma :: "string list \<Rightarrow> string" where
  \<comment> \<open>\<^verbatim>\<open>",".join(xs)\<close>\<close>
  "join_comma [] = []"
| "join_comma [x] = x"
| "join_comma (x # y # xs) = x @ '','' @ join_comma (y # xs)"

fun str_items :: "pyval list \<Rightarrow> exn + string list" where
  \<comment> \<open>every item joined has to be a string\<close>
  "str_items [] = Inr []"
| "str_items (v # vs) =
     (case v of
        PStr s \<Rightarrow> (case str_items vs of Inl e \<Rightarrow> Inl e | Inr ss \<Rightarrow> Inr (s # ss))
      | _ \<Rightarrow> Inl TypeError)"

definition py_join :: "pyval \<Rightarrow> exn + string" where
  "py_join v =
     (case v of
        PList xs \<Rightarrow> (case str_items xs of Inl e \<Rightarrow> Inl e | Inr ss \<Rightarrow> Inr (join_comma ss))
      | PStr s \<Rightarrow> Inr (join_comma (map (\<lambda>c. [c]) s))
      | _ \<Rightarrow> Inl TypeError)"

definition normalize_labels :: "email \<Rightarrow> exn + email" where
  \<comment> \<open>\<^verbatim>\<open>email["labels"] = ",".join(email["labels"])\<close>\<close>
  "normalize_labels email =
     (case get_item email ''labels'' of
        Inl e \<Rightarrow> Inl e
      | Inr v \<Rightarrow>
         (case py_join v of
            Inl e \<Rightarrow> Inl e
          | Inr s \<Rightarrow> Inr (AList.update ''labels'' (PStr s) email)))"

fun normalize_batch :: "email list \<Rightarrow> exn + email list" where
  "normalize_batch [] = Inr []"
| "normalize_batch (email # rest) =
     (case normalize_labels email of
        Inl e \<Rightarrow> Inl e
      | Inr email1 \<Rightarrow>
         (case normalize_batch rest of
            Inl e \<Rightarrow> Inl e
          | Inr rest1 \<Rightarrow> Inr (email1 # rest1)))"

fun process_loop ::
  "env \<Rightarrow> rule list \<Rightarrow> email list \<Rightarrow> pyval list \<Rightarrow> trace \<Rightarrow> (exn + pyval list) \<times> trace" where
  \<comment> \<open>main.py, lines 36 to 45; \<open>ids\<close> is \<^verbatim>\<open>batch_processed_ids\<close>. The handler formats
      \<^verbatim>\<open>email['message_id']\<close> into its log line before it continues.\<close>
  "process_loop ev rules [] ids tr = (Inr ids, tr)"
| "process_loop ev rules (email # rest) ids tr =
     (case process_email ev rules email tr of
        (Inr ok, tr1) \<Rightarrow>
          if ok then
            (case get_item email ''message_id'' of
               Inr mid \<Rightarrow> process_loop ev rules rest (ids @ [mid]) tr1
             | Inl e \<Rightarrow>
                (case get_item email ''message_id'' of
                   Inl k \<Rightarrow> (Inl k, tr1)
                 | Inr mid \<Rightarrow>
                     process_loop ev rules rest ids
                       (tr1 @ [Log ERROR (ErrorProcessingEmail mid e)])))
          else process_loop ev rules rest ids tr1
      | (Inl e, tr1) \<Rightarrow>
         (case get_item email ''message_id'' of
            Inl k \<Rightarrow> (Inl k, tr1)
          | Inr mid \<Rightarrow>
              process_loop ev rules rest ids (tr1 @ [Log ERROR (ErrorProcessingEmail mid e)])))"

definition batch_body ::
  "env \<Rightarrow> rule list \<Rightarrow> email list \<Rightarrow> nat \<Rightarrow> trace \<Rightarrow> (exn + unit) \<times> nat \<times> trace" where
  \<comment> \<open>the \<^verbatim>\<open>try\<close> block of main.py, lines 25 to 54\<close>
  "batch_body ev rules batch total_processed tr =
     (case normalize_batch batch of
        Inl e \<Rightarrow> (Inl e, total_processed, tr)
      | Inr batch1 \<Rightarrow>
         (case do_call ev (DbAddEmailsBatch batch1) tr of
            (Inl e, tr1) \<Rightarrow> (Inl e, total_processed, tr1)
          | (Inr _, tr1) \<Rightarrow>
             (case process_loop ev rules batch1 [] tr1 of
                (Inl e, tr2) \<Rightarrow> (Inl e, total_processed, tr2)
              | (Inr ids, tr2) \<Rightarrow>
                  if ids \<noteq> [] then
                    (let total1 = total_processed + length ids;
                         tr3 = tr2 @ [Log INFO (MarkedProcessed (length ids) total1)]
                     in case do_call ev (DbMarkAsProcessedBatch ids) tr3 of
                          (Inl e, tr4) \<Rightarrow> (Inl e, total1, tr4)
                        | (Inr _, tr4) \<Rightarrow> (Inr (), total1, tr4))
                  else (Inr (), total_processed, tr2))))"

definition process_batch ::
  "env \<Rightarrow> rule list \<Rightarrow> email list \<Rightarrow> nat \<Rightarrow> trace \<Rightarrow> nat \<times> trace" where
  \<comment> \<open>\<^verbatim>\<open>except Exception\<close>: log, and go on with the next batch\<close>
  "process_batch ev rules batch total_processed tr =
     (case batch_body ev rules batch total_processed
             (tr @ [Log INFO (ProcessingBatch (length batch))]) of
        (Inr _, total1, tr1) \<Rightarrow> (total1, tr1)
      | (Inl e, total1, tr1) \<Rightarrow> (total1, tr1 @ [Log ERROR (ErrorProcessingBatch e)]))"

section \<open>What the conditions of a rule return\<close>


section \<open>What a batch marks as processed\<close>

text \<open>
  \<open>returned_true_ids\<close> lists, in the order of the batch, the identifiers of the emails
  for which \<^verbatim>\<open>process_email\<close> returned true, each email processed on the trace the
  ones before it left. \<open>mark_calls\<close> lists the arguments of the calls of
  \<^verbatim>\<open>mark_as_processed_batch\<close> in a trace.
\<close>

fun returned_true_ids :: "env \<Rightarrow> rule list \<Rightarrow> email list \<Rightarrow> trace \<Rightarrow> pyval list" where
  "returned_true_ids ev rules [] tr = []"
| "returned_true_ids ev rules (email # rest) tr =
     (if fst (process_email ev rules email tr) = Inr True
      then (case map_of email ''message_id'' of None \<Rightarrow> [] | Some mid \<Rightarrow> [mid])
      else [])
     @ returned_true_ids ev rules rest (snd (process_email ev rules email tr))"

fun mark_calls :: "trace \<Rightarrow> pyval list list" where
  "mark_calls [] = []"
| "mark_calls (Done (DbMarkAsProcessedBatch ids) # tr) = ids # mark_calls tr"
| "mark_calls (Raised (DbMarkAsProcessedBatch ids) e # tr) = ids # mark_calls tr"
| "mark_calls (x # tr) = mark_calls tr"

section \<open>What the actions of a rule leave in the trace\<close>


section \<open>What the rules of a set return\<close>

text \<open>
  \<open>rule_results\<close> lists what \<^verbatim>\<open>Rule.evaluate\<close> returns for each rule of a list when
  \<^verbatim>\<open>process_email\<close> takes the rules one after the other, each on the trace the ones
  before it left. \<open>applied_rules\<close> lists the names in the lines that
  \<^verbatim>\<open>process_email\<close> logs after \<^verbatim>\<open>apply_actions\<close> (applied, or failed to apply), and
  \<open>matched_names\<close> the names of the rules whose result is true.
\<close>

fun rule_results :: "env \<Rightarrow> rule list \<Rightarrow> email \<Rightarrow> trace \<Rightarrow> (exn + bool) list" where
  "rule_results ev [] email tr = []"
| "rule_results ev (r # rs) email tr =
     fst (rule_evaluate ev r email tr)
       # rule_results ev rs email (snd (process_rules ev [r] email tr))"

fun applied_rules :: "trace \<Rightarrow> string list" where
  "applied_rules [] = []"
| "applied_rules (Log l (SuccessfullyApplied n) # tr) = n # applied_rules tr"
| "applied_rules (Log l (FailedToApply n) # tr) = n # applied_rules tr"
| "applied_rules (x # tr) = applied_rules tr"

definition matched_names :: "rule list \<Rightarrow> (exn + bool) list \<Rightarrow> string list" where
  "matched_names rs xs =
     map (\<lambda>p. r_name (fst p)) (filter (\<lambda>p. snd p = Inr True) (zip rs xs))"

section \<open>Example inputs\<close>

text \<open>
  The clock of the examples reads 2024-01-01 00:00:00, which is 738885 days after
  \<^verbatim>\<open>datetime.min\<close>. In \<open>env_ok\<close> no collaborator call raises; in
  \<open>env_move_fails\<close> the Gmail client raises in \<^verbatim>\<open>move_message\<close>. The email is
  the one of \<^verbatim>\<open>tests/test_rules.py\<close>.
\<close>

definition env_ok :: env where
  "env_ok = \<lparr>clock = (\<lambda>_. 738885 * us_per_day), raises = (\<lambda>_ _. None), str_of = (\<lambda>_. [])\<rparr>"

definition env_move_fails :: env where
  "env_move_fails =
     \<lparr>clock = (\<lambda>_. 738885 * us_per_day),
      raises = (\<lambda>_ c. case c of GmailMoveMessage _ _ \<Rightarrow> Some (OtherError ''TimeoutError'') | _ \<Rightarrow> None),
      str_of = (\<lambda>_. [])\<rparr>"

definition sample_email :: email where
  "sample_email =
     [(''message_id'', PStr ''test123''), (''sender'', PStr ''sender@test.com''),
      (''recipient'', PStr ''recipient@test.com''), (''subject'', PStr ''Test Subject''),
      (''body'', PStr ''Test Body''), (''labels'', PList [PStr ''INBOX'']),
      (''received_date'', PDatetime (738885 * us_per_day) False), (''is_read'', PBool False)]"

definition subject_test :: condition where
  "subject_test = \<lparr>c_field = ''subject'', c_predicate = ''contains'', c_value = ''test''\<rparr>"

definition rule_of_actions :: "string \<Rightarrow> action list \<Rightarrow> rule" where
  "rule_of_actions n as =
     \<lparr>r_name = n, r_conditions = [subject_test], r_predicate = ''all'', r_actions = as\<rparr>"

definition subject_no_match :: condition where
  "subject_no_match =
     \<lparr>c_field = ''subject'', c_predicate = ''contains'', c_value = ''no match''\<rparr>"

definition rule_of_conditions :: "string \<Rightarrow> condition list \<Rightarrow> rule" where
  "rule_of_conditions p cs =
     \<lparr>r_name = ''Test Rule'', r_conditions = cs, r_predicate = p,
      r_actions = [[(''type'', ''mark_as_read'')]]\<rparr>"

definition far_past :: condition where
  "far_past = \<lparr>c_field = ''received_date'', c_predicate = ''less_than'',
               c_value = ''1000000 days''\<rparr>"


definition max_days :: condition where
  "max_days = \<lparr>c_field = ''received_date'', c_predicate = ''less_than'',
               c_value = ''999999999 days''\<rparr>"

definition date_condition :: "string \<Rightarrow> condition" where
  "date_condition p = \<lparr>c_field = ''received_date'', c_predicate = p, c_value = ''7 days''\<rparr>"

definition email_received :: "int \<Rightarrow> email" where
  "email_received t =
     [(''message_id'', PStr ''test123''), (''subject'', PStr ''Test Subject''),
      (''received_date'', PDatetime t False)]"

definition email_without_id :: email where
  "email_without_id = [(''received_date'', PDatetime (738885 * us_per_day) False)]"



definition test_rule_json :: json where
  "test_rule_json =
     JObj [(''name'', JStr ''Test Rule''),
           (''conditions'',
              JArr [JObj [(''field'', JStr ''subject''), (''predicate'', JStr ''contains''),
                          (''value'', JStr ''test'')]]),
           (''predicate'', JStr ''all''),
           (''actions'', JArr [JObj [(''type'', JStr ''mark_as_read'')]])]"

definition test_rule_loaded :: loaded_rule where
  "test_rule_loaded =
     \<lparr>lr_name = JStr ''Test Rule'',
      lr_conditions = [\<lparr>lc_field = JStr ''subject'', lc_predicate = JStr ''contains'',
                         lc_value = JStr ''test''\<rparr>],
      lr_predicate = JStr ''all'',
      lr_actions = JArr [JObj [(''type'', JStr ''mark_as_read'')]]\<rparr>"

definition second_rule_malformed :: json where
  "second_rule_malformed =
     JObj [(''rules'', JArr [test_rule_json, JObj [(''name'', JStr ''No conditions'')]])]"

definition email_of :: "string \<Rightarrow> string \<Rightarrow> pyval \<Rightarrow> email" where
  "email_of mid subject labels =
     [(''message_id'', PStr mid), (''subject'', PStr subject), (''labels'', labels)]"

definition dated_email_of :: "string \<Rightarrow> string \<Rightarrow> pyval \<Rightarrow> email" where
  "dated_email_of mid subject labels =
     email_of mid subject labels @ [(''received_date'', PDatetime (738885 * us_per_day) False)]"

definition no_match_rule :: rule where
  "no_match_rule =
     \<lparr>r_name = ''never'', r_conditions = [subject_no_match], r_predicate = ''all'',
      r_actions = [[(''type'', ''mark_as_unread'')]]\<rparr>"

definition three_rules :: "rule list" where
  "three_rules =
     [rule_of_actions ''first'' [[(''type'', ''move_message''), (''label'', ''Work'')]],
      no_match_rule,
      rule_of_actions ''second'' [[(''type'', ''mark_as_read'')]]]"

definition raising_rules :: "rule list" where
  "raising_rules =
     [no_match_rule, rule_of_conditions ''all'' [far_past],
      rule_of_actions ''second'' [[(''type'', ''mark_as_read'')]]]"

section \<open>Conditions\<close>

lemma py_int_digit_limit:
  "length (filter is_digit s) > max_str_digits \<Longrightarrow> py_int s = Inl ValueError"
  by (cases s) (auto simp: py_int_def digits_value_def is_digit_def)

lemma mapping_received_date: "EMAIL_FIELD_MAPPING ''received_date'' = Some ''received_date''"
  by (simp add: EMAIL_FIELD_MAPPING_def)


text \<open>
  Claim C5, as amended. Take a date condition whose value holds \<^verbatim>\<open>days\<close> and whose
  first token \<^verbatim>\<open>int\<close> reads as the integer \<open>n\<close> (a literal of at most 4300 digits),
  and an email whose \<^verbatim>\<open>received_date\<close> is a datetime \<open>t\<close>. When the threshold, the clock reading at the evaluation minus \<open>n\<close>
  days, is a datetime (\<open>n\<close> is a day count a \<^verbatim>\<open>timedelta\<close> takes and the result lies
  between \<^verbatim>\<open>datetime.min\<close> and \<^verbatim>\<open>datetime.max\<close>), \<^verbatim>\<open>less_than\<close> returns
  whether \<open>t\<close> is strictly after the threshold and \<^verbatim>\<open>greater_than\<close> whether \<open>t\<close> is
  strictly before it. The examples: an email received 10 days ago satisfies
  \<^verbatim>\<open>greater_than "7 days"\<close> and not \<^verbatim>\<open>less_than "7 days"\<close>; one received 5 days ago
  satisfies \<^verbatim>\<open>less_than "7 days"\<close> and not \<^verbatim>\<open>greater_than "7 days"\<close>.
\<close>

theorem date_condition_threshold:
  assumes "c_field c = ''received_date''"
    and "map_of email ''received_date'' = Some (PDatetime t aware)"
    and "is_substring ''days'' (c_value c)"
    and "first_token (c_value c) = Inr tok"
    and "py_int tok = Inr n"
    and "\<bar>n\<bar> \<le> 999999999"
    and "0 \<le> clock ev tr - n * us_per_day"
    and "clock ev tr - n * us_per_day < max_us"
  shows "(c_predicate c = ''less_than'' \<longrightarrow>
           cond_evaluate ev c email tr
             = (Inr (clock ev tr - n * us_per_day < t), tr @ [ReadClock]))
       \<and> (c_predicate c = ''greater_than'' \<longrightarrow>
           cond_evaluate ev c email tr
             = (Inr (t < clock ev tr - n * us_per_day), tr @ [ReadClock]))"
  using assms
  by (simp add: cond_evaluate_def mapping_received_date evaluate_date_def date_body_def
      sub_days_def Let_def)

theorem date_condition_threshold_witness:
  "cond_evaluate env_ok (date_condition ''greater_than'') (email_received (738875 * us_per_day)) []
     = (Inr True, [ReadClock])
   \<and> cond_evaluate env_ok (date_condition ''less_than'') (email_received (738875 * us_per_day)) []
     = (Inr False, [ReadClock])
   \<and> cond_evaluate env_ok (date_condition ''greater_than'') (email_received (738880 * us_per_day)) []
     = (Inr False, [ReadClock])
   \<and> cond_evaluate env_ok (date_condition ''less_than'') (email_received (738880 * us_per_day)) []
     = (Inr True, [ReadClock])"
proof -
  have f: "c_field (date_condition p) = ''received_date''" for p
    by (simp add: date_condition_def)
  have m: "map_of (email_received t) ''received_date'' = Some (PDatetime t False)" for t
    by (simp add: email_received_def)
  have v: "c_value (date_condition p) = ''7 days''" for p
    by (simp add: date_condition_def)
  have d: "is_substring ''days'' (c_value (date_condition p))" for p
    unfolding v by code_simp
  have tok: "first_token (c_value (date_condition p)) = Inr ''7''" for p
    unfolding v by code_simp
  have n: "py_int ''7'' = Inr 7" by code_simp
  have r1: "\<bar>7 :: int\<bar> \<le> 999999999" by simp
  have r2: "0 \<le> clock env_ok [] - 7 * us_per_day"
    by (simp add: env_ok_def us_per_day_def)
  have r3: "clock env_ok [] - 7 * us_per_day < max_us"
    by (simp add: env_ok_def us_per_day_def max_us_def)
  note T = date_condition_threshold [OF f m d tok n r1 r2 r3]
  from T [of "''greater_than''" "738875 * us_per_day"] T [of "''less_than''" "738875 * us_per_day"]
       T [of "''greater_than''" "738880 * us_per_day"] T [of "''less_than''" "738880 * us_per_day"]
  show ?thesis by (simp add: date_condition_def env_ok_def us_per_day_def)
qed

text \<open>
  As stated for every day count, claim C5 fails: with the value \<^verbatim>\<open>999999999 days\<close> the
  received time is after the threshold, and the evaluation raises OverflowError
  instead of returning true.
\<close>

theorem date_condition_overflow_counterexample:
  "clock env_ok [] - 999999999 * us_per_day < 738885 * us_per_day
   \<and> cond_evaluate env_ok max_days (email_received (738885 * us_per_day)) []
       = (Inl OverflowError, [ReadClock])"
  by code_simp











section \<open>Rules\<close>








section \<open>Actions\<close>

lemma apply_action_list_append:
  "apply_action_list ev (xs @ ys) email tr =
     (case apply_action_list ev xs email tr of
        (Inl e, tr1) \<Rightarrow> (Inl e, tr1)
      | (Inr _, tr1) \<Rightarrow> apply_action_list ev ys email tr1)"
  by (induction xs arbitrary: tr) (auto split: prod.splits sum.splits)

lemma do_call_extends: "\<exists>evs. snd (do_call ev c tr) = tr @ evs"
  by (simp add: do_call_def split: option.splits)

lemma mark_both_extends: "\<exists>evs. snd (mark_both ev email b tr) = tr @ evs"
  by (auto simp: mark_both_def do_call_def split: sum.splits option.splits prod.splits)

lemma move_both_extends: "\<exists>evs. snd (move_both ev email a tr) = tr @ evs"
  by (auto simp: move_both_def do_call_def split: sum.splits option.splits prod.splits)

lemma apply_action_extends: "\<exists>evs. snd (apply_action ev a email tr) = tr @ evs"
  using mark_both_extends move_both_extends
  by (auto simp: apply_action_def split: sum.splits)

lemma apply_action_list_extends: "\<exists>evs. snd (apply_action_list ev as email tr) = tr @ evs"
proof (induction as arbitrary: tr)
  case Nil
  then show ?case by simp
next
  case (Cons a as)
  obtain res tr1 where a: "apply_action ev a email tr = (res, tr1)"
    by (cases "apply_action ev a email tr")
  from apply_action_extends [of ev a email tr] a obtain evs1 where e1: "tr1 = tr @ evs1"
    by auto
  show ?case
  proof (cases res)
    case (Inl e)
    with a e1 show ?thesis by simp
  next
    case (Inr u)
    from Cons.IH [of tr1] obtain evs2
      where "snd (apply_action_list ev as email tr1) = tr1 @ evs2" by blast
    with a Inr e1 show ?thesis by simp
  qed
qed

lemma skipped_action_removed:
  assumes "\<And>tr. apply_action ev a email tr = (Inr (), tr)"
  shows "apply_action_list ev (pre @ a # post) email tr = apply_action_list ev (pre @ post) email tr"
  using assms by (simp add: apply_action_list_append split: prod.splits sum.splits)






text \<open>
  Claim C10. A \<^verbatim>\<open>move_message\<close> action without a \<^verbatim>\<open>label\<close> entry makes no call on
  the mailbox or the store and adds no event at all; \<^verbatim>\<open>apply_actions\<close> goes on with
  the remaining actions and gives the result and the trace it gives on the list without
  that action.
\<close>

theorem move_without_label_skipped:
  assumes "map_of a ''type'' = Some ''move_message''"
    and "map_of a ''label'' = None"
  shows "apply_action ev a email tr = (Inr (), tr)
       \<and> apply_actions ev (r\<lparr>r_actions := pre @ a # post\<rparr>) email tr
           = apply_actions ev (r\<lparr>r_actions := pre @ post\<rparr>) email tr"
proof -
  have skip: "apply_action ev a email tr' = (Inr (), tr')" for tr'
    using assms by (simp add: apply_action_def get_item_def)
  from skipped_action_removed [of ev a email pre post tr, OF skip] skip
  show ?thesis by (simp add: apply_actions_def split: prod.splits sum.splits)
qed

theorem move_without_label_skipped_witness:
  "map_of [(''type'', ''move_message'')] ''type'' = Some ''move_message''
   \<and> map_of [(''type'', ''move_message'')] ''label'' = None
   \<and> apply_actions env_ok
        (rule_of_actions ''r'' [[(''type'', ''move_message'')], [(''type'', ''mark_as_unread'')]])
        sample_email []
      = (Inr True, [Done (GmailMarkAsRead (PStr ''test123'') False),
                    Done (DbMarkAsRead (PStr ''test123'') False)])"
proof -
  have h1: "map_of [(''type'', ''move_message'')] ''type'' = Some ''move_message''" by simp
  have h2: "map_of [(''type'', ''move_message'')] ''label'' = None" by simp
  have rest: "apply_actions env_ok (rule_of_actions ''r'' [[(''type'', ''mark_as_unread'')]])
                sample_email []
              = (Inr True, [Done (GmailMarkAsRead (PStr ''test123'') False),
                            Done (DbMarkAsRead (PStr ''test123'') False)])"
    by code_simp
  from move_without_label_skipped [OF h1 h2, where ev = env_ok and email = sample_email
      and tr = "[]" and r = "rule_of_actions ''r'' []" and pre = "[]"
      and post = "[[(''type'', ''mark_as_unread'')]]"] rest
  show ?thesis by (simp add: rule_of_actions_def)
qed

text \<open>
  Claim C7. When an action of the list raises, \<^verbatim>\<open>apply_actions\<close> stops there: it
  returns false, and its trace is the trace up to the raise followed by one error line
  that names the rule. No action behind the failing one adds an event, and the events
  of the actions before it stay in the trace (nothing is rolled back).
\<close>

theorem apply_actions_aborts_at_failure:
  assumes "r_actions r = pre @ a # post"
    and "apply_action_list ev pre email tr = (Inr (), tr1)"
    and "apply_action ev a email tr1 = (Inl e, tr2)"
  shows "apply_actions ev r email tr
           = (Inr False, tr2 @ [Log ERROR (ErrorApplyingActions (r_name r) e)])
       \<and> (\<exists>evs. tr1 = tr @ evs) \<and> (\<exists>evs. tr2 = tr1 @ evs)"
proof -
  have "apply_action_list ev (pre @ a # post) email tr = (Inl e, tr2)"
    using assms(2,3) by (simp add: apply_action_list_append)
  then have res: "apply_actions ev r email tr
      = (Inr False, tr2 @ [Log ERROR (ErrorApplyingActions (r_name r) e)])"
    using assms(1) by (simp add: apply_actions_def)
  from apply_action_list_extends [of ev pre email tr] assms(2)
  have p1: "\<exists>evs. tr1 = tr @ evs" by simp
  from apply_action_extends [of ev a email tr1] assms(3)
  have p2: "\<exists>evs. tr2 = tr1 @ evs" by simp
  from res p1 p2 show ?thesis by blast
qed

theorem apply_actions_aborts_at_failure_witness:
  "apply_actions env_move_fails
     (rule_of_actions ''r''
        [[(''type'', ''mark_as_read'')], [(''type'', ''move_message''), (''label'', ''Work'')],
         [(''type'', ''mark_as_unread'')]])
     sample_email []
   = (Inr False,
      [Done (GmailMarkAsRead (PStr ''test123'') True), Done (DbMarkAsRead (PStr ''test123'') True),
       Raised (GmailMoveMessage (PStr ''test123'') ''Work'') (OtherError ''TimeoutError''),
       Log ERROR (ErrorApplyingActions ''r'' (OtherError ''TimeoutError''))])"
proof -
  let ?r = "rule_of_actions ''r''
        [[(''type'', ''mark_as_read'')], [(''type'', ''move_message''), (''label'', ''Work'')],
         [(''type'', ''mark_as_unread'')]]"
  let ?tr1 = "[Done (GmailMarkAsRead (PStr ''test123'') True),
               Done (DbMarkAsRead (PStr ''test123'') True)]"
  have h1: "r_actions ?r = [[(''type'', ''mark_as_read'')]]
               @ [(''type'', ''move_message''), (''label'', ''Work'')]
               # [[(''type'', ''mark_as_unread'')]]"
    by (simp add: rule_of_actions_def)
  have h2: "apply_action_list env_move_fails [[(''type'', ''mark_as_read'')]] sample_email []
              = (Inr (), ?tr1)"
    by code_simp
  have h3: "apply_action env_move_fails [(''type'', ''move_message''), (''label'', ''Work'')]
              sample_email ?tr1
            = (Inl (OtherError ''TimeoutError''),
               ?tr1 @ [Raised (GmailMoveMessage (PStr ''test123'') ''Work'')
                         (OtherError ''TimeoutError'')])"
    by code_simp
  from apply_actions_aborts_at_failure [OF h1 h2 h3]
  show ?thesis by (simp add: rule_of_actions_def)
qed

section \<open>Processing one email\<close>

lemma process_rules_append:
  "process_rules ev (xs @ ys) email tr =
     (case process_rules ev xs email tr of
        (Inl e, tr1) \<Rightarrow> (Inl e, tr1)
      | (Inr _, tr1) \<Rightarrow> process_rules ev ys email tr1)"
  by (induction xs arbitrary: tr) (auto split: prod.splits sum.splits)

lemma applied_rules_append: "applied_rules (xs @ ys) = applied_rules xs @ applied_rules ys"
  by (induction xs rule: applied_rules.induct) auto

lemma do_call_applied: "applied_rules (snd (do_call ev c tr)) = applied_rules tr"
  by (auto simp: do_call_def applied_rules_append split: option.splits)

lemma mark_both_applied: "applied_rules (snd (mark_both ev email b tr)) = applied_rules tr"
proof (cases "get_item email ''message_id''")
  case (Inl e)
  then show ?thesis by (simp add: mark_both_def)
next
  case (Inr mid)
  with do_call_applied [of ev "GmailMarkAsRead mid b" tr] do_call_applied [of ev "DbMarkAsRead mid b"]
  show ?thesis
    by (cases "do_call ev (GmailMarkAsRead mid b) tr")
       (auto simp: mark_both_def split: sum.splits)
qed

lemma move_both_applied: "applied_rules (snd (move_both ev email a tr)) = applied_rules tr"
proof (cases "get_item email ''message_id''")
  case (Inl e)
  then show ?thesis by (simp add: move_both_def)
next
  case mid: (Inr mid)
  show ?thesis
  proof (cases "get_item a ''label''")
    case (Inl e)
    with mid show ?thesis by (simp add: move_both_def)
  next
    case (Inr label)
    with mid do_call_applied [of ev "GmailMoveMessage mid label" tr]
      do_call_applied [of ev "DbUpdateLabels mid label"]
    show ?thesis
      by (cases "do_call ev (GmailMoveMessage mid label) tr")
         (auto simp: move_both_def split: sum.splits)
  qed
qed

lemma apply_action_applied: "applied_rules (snd (apply_action ev a email tr)) = applied_rules tr"
  by (simp add: apply_action_def mark_both_applied move_both_applied split: sum.splits)

lemma apply_action_list_applied:
  "applied_rules (snd (apply_action_list ev as email tr)) = applied_rules tr"
proof (induction as arbitrary: tr)
  case Nil
  then show ?case by simp
next
  case (Cons a as)
  from apply_action_applied [of ev a email tr] Cons.IH show ?case
    by (cases "apply_action ev a email tr") (auto split: sum.splits)
qed

lemma apply_actions_applied:
  "\<exists>ok. fst (apply_actions ev r email tr) = Inr ok"
  "applied_rules (snd (apply_actions ev r email tr)) = applied_rules tr"
  using apply_action_list_applied [of ev "r_actions r" email tr]
  by (cases "apply_action_list ev (r_actions r) email tr";
      auto simp: apply_actions_def applied_rules_append split: sum.splits)+

lemma date_body_applied: "applied_rules (snd (date_body ev c v tr)) = applied_rules tr"
  by (cases v)
     (auto simp: date_body_def Let_def applied_rules_append split: sum.splits)

lemma evaluate_date_applied: "applied_rules (snd (evaluate_date ev c v tr)) = applied_rules tr"
  using date_body_applied [of ev c v tr]
  by (cases "date_body ev c v tr")
     (auto simp: evaluate_date_def applied_rules_append split: sum.splits)

lemma cond_evaluate_applied:
  "applied_rules (snd (cond_evaluate ev c email tr)) = applied_rules tr"
  by (auto simp: cond_evaluate_def Let_def evaluate_date_applied applied_rules_append
      split: option.splits if_splits)

lemma eval_conditions_applied:
  "applied_rules (snd (eval_conditions ev cs email tr)) = applied_rules tr"
proof (induction cs arbitrary: tr)
  case Nil
  then show ?case by simp
next
  case (Cons c cs)
  obtain res tr1 where c: "cond_evaluate ev c email tr = (res, tr1)"
    by (cases "cond_evaluate ev c email tr")
  with cond_evaluate_applied [of ev c email tr] have 1: "applied_rules tr1 = applied_rules tr"
    by simp
  from Cons.IH [of tr1] 1 c show ?case
    by (cases "eval_conditions ev cs email tr1") (auto split: sum.splits)
qed

lemma rule_evaluate_applied:
  "applied_rules (snd (rule_evaluate ev r email tr)) = applied_rules tr"
  using eval_conditions_applied [of ev "r_conditions r" email tr]
  by (cases "eval_conditions ev (r_conditions r) email tr")
     (auto simp: rule_evaluate_def split: sum.splits)

lemma one_rule_applied:
  assumes "fst (rule_evaluate ev r email tr) = Inr b"
  shows "fst (process_rules ev [r] email tr) = Inr ()
       \<and> applied_rules (snd (process_rules ev [r] email tr))
           = applied_rules tr @ (if b then [r_name r] else [])"
proof -
  obtain tr1 where e: "rule_evaluate ev r email tr = (Inr b, tr1)"
    using assms by (cases "rule_evaluate ev r email tr") auto
  with rule_evaluate_applied [of ev r email tr] have 1: "applied_rules tr1 = applied_rules tr"
    by simp
  obtain res tr2 where a: "apply_actions ev r email tr1 = (res, tr2)"
    by (cases "apply_actions ev r email tr1")
  with apply_actions_applied [of ev r email tr1] 1 obtain ok
    where ok: "res = Inr ok" and 2: "applied_rules tr2 = applied_rules tr" by auto
  from e a ok 1 2 show ?thesis by (auto simp: applied_rules_append)
qed

lemma process_rules_Cons:
  "process_rules ev (r # rs) email tr =
     (case process_rules ev [r] email tr of
        (Inl e, tr1) \<Rightarrow> (Inl e, tr1)
      | (Inr _, tr1) \<Rightarrow> process_rules ev rs email tr1)"
  using process_rules_append [of ev "[r]" rs email tr] by simp

lemma process_rules_all:
  assumes "\<forall>x\<in>set (rule_results ev rs email tr). \<forall>e. x \<noteq> Inl e"
  shows "fst (process_rules ev rs email tr) = Inr ()
       \<and> applied_rules (snd (process_rules ev rs email tr))
           = applied_rules tr @ matched_names rs (rule_results ev rs email tr)"
  using assms
proof (induction rs arbitrary: tr)
  case Nil
  then show ?case by (simp add: matched_names_def)
next
  case (Cons r rs)
  from Cons.prems obtain b where b: "fst (rule_evaluate ev r email tr) = Inr b"
    by (cases "fst (rule_evaluate ev r email tr)") auto
  obtain u tr1 where one: "process_rules ev [r] email tr = (u, tr1)"
    by (cases "process_rules ev [r] email tr")
  with one_rule_applied [OF b] have u: "u = Inr ()"
    and a1: "applied_rules tr1 = applied_rules tr @ (if b then [r_name r] else [])"
    by auto
  from Cons.prems one have "\<forall>x\<in>set (rule_results ev rs email tr1). \<forall>e. x \<noteq> Inl e"
    by simp
  from Cons.IH [OF this] one u a1 b show ?case
    by (simp add: process_rules_Cons [of ev r rs] matched_names_def del: process_rules.simps)
qed

text \<open>
  Claim C6, as amended. \<^verbatim>\<open>process_email\<close> evaluates the rules in the order of the list
  until the evaluation of one raises. When no evaluation raises, every rule is
  evaluated, the call returns true, and the rules whose actions were applied are
  exactly the rules that matched, in order, whether the actions of an earlier rule
  failed or not. A rule that matches and whose \<^verbatim>\<open>apply_actions\<close> returns false leaves
  one error line, and the call goes on with the rules behind it. When the evaluation
  of a rule raises, the rules behind it are not evaluated: for an email that has an
  identifier the call logs the error and returns false. The example has a rule whose
  action raises, a rule that does not match and a rule that matches: the last is still
  evaluated and its actions applied.
\<close>

theorem process_email_evaluates_until_raise:
  "((\<forall>x\<in>set (rule_results ev rs email tr). \<forall>e. x \<noteq> Inl e) \<longrightarrow>
       fst (process_email ev rs email tr) = Inr True
       \<and> applied_rules (snd (process_email ev rs email tr))
           = applied_rules tr @ matched_names rs (rule_results ev rs email tr))
   \<and> (\<forall>pre r post tr1 tr2 tr3.
         rs = pre @ r # post \<and> process_rules ev pre email tr = (Inr (), tr1)
         \<and> rule_evaluate ev r email tr1 = (Inr True, tr2)
         \<and> apply_actions ev r email tr2 = (Inr False, tr3) \<longrightarrow>
         process_email ev rs email tr
           = process_email ev post email (tr3 @ [Log ERROR (FailedToApply (r_name r))]))
   \<and> (\<forall>pre r post tr1 tr2 e mid.
         rs = pre @ r # post \<and> process_rules ev pre email tr = (Inr (), tr1)
         \<and> rule_evaluate ev r email tr1 = (Inl e, tr2)
         \<and> map_of email ''message_id'' = Some mid \<longrightarrow>
         process_email ev rs email tr
           = (Inr False, tr2 @ [Log ERROR (ErrorProcessingEmail mid e)]))"
proof -
  have all: "fst (process_email ev rs email tr) = Inr True
       \<and> applied_rules (snd (process_email ev rs email tr))
           = applied_rules tr @ matched_names rs (rule_results ev rs email tr)"
    if "\<forall>x\<in>set (rule_results ev rs email tr). \<forall>e. x \<noteq> Inl e"
    using process_rules_all [OF that]
    by (cases "process_rules ev rs email tr") (auto simp: process_email_def)
  have continues: "process_email ev rs email tr
           = process_email ev post email (tr3 @ [Log ERROR (FailedToApply (r_name r))])"
    if "rs = pre @ r # post" and "process_rules ev pre email tr = (Inr (), tr1)"
      and "rule_evaluate ev r email tr1 = (Inr True, tr2)"
      and "apply_actions ev r email tr2 = (Inr False, tr3)" for pre r post tr1 tr2 tr3
    using that by (simp add: process_email_def process_rules_append)
  have stops: "process_email ev rs email tr
           = (Inr False, tr2 @ [Log ERROR (ErrorProcessingEmail mid e)])"
    if "rs = pre @ r # post" and "process_rules ev pre email tr = (Inr (), tr1)"
      and "rule_evaluate ev r email tr1 = (Inl e, tr2)"
      and "map_of email ''message_id'' = Some mid" for pre r post tr1 tr2 e mid
    using that by (simp add: process_email_def process_rules_append get_item_def)
  from all continues stops show ?thesis by blast
qed

theorem process_email_evaluates_until_raise_witness:
  "process_email env_move_fails three_rules sample_email []
     = (Inr True,
        [Raised (GmailMoveMessage (PStr ''test123'') ''Work'') (OtherError ''TimeoutError''),
         Log ERROR (ErrorApplyingActions ''first'' (OtherError ''TimeoutError'')),
         Log ERROR (FailedToApply ''first''),
         Done (GmailMarkAsRead (PStr ''test123'') True),
         Done (DbMarkAsRead (PStr ''test123'') True),
         Log DEBUG (SuccessfullyApplied ''second'')])
   \<and> rule_results env_move_fails three_rules sample_email [] = [Inr True, Inr False, Inr True]
   \<and> applied_rules (snd (process_email env_move_fails three_rules sample_email []))
       = [''first'', ''second'']
   \<and> process_email env_ok raising_rules sample_email []
       = (Inr False, [ReadClock, Log ERROR (ErrorProcessingEmail (PStr ''test123'') OverflowError)])"
proof -
  let ?first = "rule_of_actions ''first'' [[(''type'', ''move_message''), (''label'', ''Work'')]]"
  let ?second = "rule_of_actions ''second'' [[(''type'', ''mark_as_read'')]]"
  let ?tr3 = "[Raised (GmailMoveMessage (PStr ''test123'') ''Work'') (OtherError ''TimeoutError''),
               Log ERROR (ErrorApplyingActions ''first'' (OtherError ''TimeoutError''))]"
  note T1 = process_email_evaluates_until_raise [of env_move_fails three_rules sample_email "[]"]
  note T2 = process_email_evaluates_until_raise [of env_ok raising_rules sample_email "[]"]
  have s: "three_rules = [] @ ?first # [no_match_rule, ?second]"
    by (simp add: three_rules_def)
  have h1: "process_rules env_move_fails [] sample_email [] = (Inr (), [])" by simp
  have h2: "rule_evaluate env_move_fails ?first sample_email [] = (Inr True, [])" by code_simp
  have h3: "apply_actions env_move_fails ?first sample_email [] = (Inr False, ?tr3)"
    by code_simp
  have rest: "process_email env_move_fails [no_match_rule, ?second] sample_email
                (?tr3 @ [Log ERROR (FailedToApply (r_name ?first))])
              = (Inr True,
        [Raised (GmailMoveMessage (PStr ''test123'') ''Work'') (OtherError ''TimeoutError''),
         Log ERROR (ErrorApplyingActions ''first'' (OtherError ''TimeoutError'')),
         Log ERROR (FailedToApply ''first''),
         Done (GmailMarkAsRead (PStr ''test123'') True),
         Done (DbMarkAsRead (PStr ''test123'') True),
         Log DEBUG (SuccessfullyApplied ''second'')])"
    by code_simp
  from T1 s h1 h2 h3
  have "process_email env_move_fails three_rules sample_email []
          = process_email env_move_fails [no_match_rule, ?second] sample_email
              (?tr3 @ [Log ERROR (FailedToApply (r_name ?first))])"
    by blast
  with rest have 1: "process_email env_move_fails three_rules sample_email []
     = (Inr True,
        [Raised (GmailMoveMessage (PStr ''test123'') ''Work'') (OtherError ''TimeoutError''),
         Log ERROR (ErrorApplyingActions ''first'' (OtherError ''TimeoutError'')),
         Log ERROR (FailedToApply ''first''),
         Done (GmailMarkAsRead (PStr ''test123'') True),
         Done (DbMarkAsRead (PStr ''test123'') True),
         Log DEBUG (SuccessfullyApplied ''second'')])"
    by simp
  have rr: "rule_results env_move_fails three_rules sample_email []
              = [Inr True, Inr False, Inr True]"
    by code_simp
  have mn: "matched_names three_rules [Inr True, Inr False, Inr True] = [''first'', ''second'']"
    by (simp add: matched_names_def three_rules_def rule_of_actions_def)
  from T1 rr mn
  have 2: "applied_rules (snd (process_email env_move_fails three_rules sample_email []))
             = [''first'', ''second'']"
    by simp
  have s': "raising_rules = [no_match_rule] @ rule_of_conditions ''all'' [far_past] # [?second]"
    by (simp add: raising_rules_def)
  have g1: "process_rules env_ok [no_match_rule] sample_email [] = (Inr (), [])" by code_simp
  have g2: "rule_evaluate env_ok (rule_of_conditions ''all'' [far_past]) sample_email []
              = (Inl OverflowError, [ReadClock])"
    by code_simp
  have g3: "map_of sample_email ''message_id'' = Some (PStr ''test123'')"
    by (simp add: sample_email_def)
  from T2 s' g1 g2 g3
  have "process_email env_ok raising_rules sample_email []
          = (Inr False, [ReadClock] @ [Log ERROR (ErrorProcessingEmail (PStr ''test123'') OverflowError)])"
    by blast
  then have 3: "process_email env_ok raising_rules sample_email []
       = (Inr False, [ReadClock, Log ERROR (ErrorProcessingEmail (PStr ''test123'') OverflowError)])"
    by simp
  from 1 rr 2 3 show ?thesis by blast
qed

text \<open>
  As stated, claim C6 fails: the second rule below matches the email, the evaluation
  of the first raises, and \<^verbatim>\<open>process_email\<close> returns false without evaluating the
  second rule or applying its actions.
\<close>

theorem later_rule_not_evaluated_counterexample:
  "fst (rule_evaluate env_ok (rule_of_actions ''second'' [[(''type'', ''mark_as_read'')]])
          sample_email []) = Inr True
   \<and> process_email env_ok
        [rule_of_conditions ''all'' [far_past],
         rule_of_actions ''second'' [[(''type'', ''mark_as_read'')]]]
        sample_email []
      = (Inr False, [ReadClock, Log ERROR (ErrorProcessingEmail (PStr ''test123'') OverflowError)])"
  by code_simp

text \<open>
  Claim C3. \<^verbatim>\<open>process_email\<close> is meant never to raise: its handler catches every
  exception and returns false. The handler formats \<^verbatim>\<open>email['message_id']\<close> into the
  log line, so for an email without that key, on which a condition raises, the handler
  raises KeyError itself.
\<close>

theorem process_email_raises_without_message_id:
  "process_email env_ok [rule_of_conditions ''all'' [far_past]] email_without_id []
     = (Inl (KeyError ''message_id''), [ReadClock])"
  by code_simp

section \<open>Loading the rules\<close>

lemma load_loop_good:
  "map build_rule good = map Inr rs \<Longrightarrow>
     load_loop (good @ rest) rules = load_loop rest (rules @ rs)"
proof (induction good arbitrary: rs rules)
  case Nil
  then show ?case by simp
next
  case (Cons g good)
  then obtain r rs' where rs: "rs = r # rs'" by (cases rs) auto
  with Cons.prems have g: "build_rule g = Inr r" and rest: "map build_rule good = map Inr rs'"
    by auto
  from Cons.IH [OF rest, of "rules @ [r]"] g rs show ?case by simp
qed

text \<open>
  Claim C2, as amended. Constructing a \<^verbatim>\<open>RuleProcessor\<close> never raises. When the file
  cannot be read or parsed, when the document has no entry \<^verbatim>\<open>rules\<close>, or when that
  entry cannot be iterated, the failure is logged and the rule list is empty. When an
  entry of the list fails to construct, the failure is logged and the engine keeps the
  rules built from the entries before it: the list is empty only when the first entry
  is the one that fails. A document whose entries all construct gives all the rules
  and no log line.
\<close>

theorem load_rules_keeps_rules_before_failure:
  "fst (RuleProcessor_init file tr) = Inr ()
   \<and> (\<forall>e. file = Inl e \<longrightarrow>
         RuleProcessor_init file tr = (Inr (), [], tr @ [Log ERROR (ErrorLoadingRules e)]))
   \<and> (\<forall>doc e. file = Inr doc \<and> json_getitem doc ''rules'' = Inl e \<longrightarrow>
         RuleProcessor_init file tr = (Inr (), [], tr @ [Log ERROR (ErrorLoadingRules e)]))
   \<and> (\<forall>doc entries e.
         file = Inr doc \<and> json_getitem doc ''rules'' = Inr entries \<and> json_iter entries = Inl e \<longrightarrow>
         RuleProcessor_init file tr = (Inr (), [], tr @ [Log ERROR (ErrorLoadingRules e)]))
   \<and> (\<forall>doc entries good bad rest rs e.
         file = Inr doc \<and> json_getitem doc ''rules'' = Inr entries
         \<and> json_iter entries = Inr (good @ bad # rest)
         \<and> map build_rule good = map Inr rs \<and> build_rule bad = Inl e \<longrightarrow>
         RuleProcessor_init file tr = (Inr (), rs, tr @ [Log ERROR (ErrorLoadingRules e)]))
   \<and> (\<forall>doc entries items rs.
         file = Inr doc \<and> json_getitem doc ''rules'' = Inr entries
         \<and> json_iter entries = Inr items \<and> map build_rule items = map Inr rs \<longrightarrow>
         RuleProcessor_init file tr = (Inr (), rs, tr))"
proof -
  have never: "fst (RuleProcessor_init file tr) = Inr ()"
    by (simp add: RuleProcessor_init_def load_rules_def split: prod.splits sum.splits)
  have unreadable: "RuleProcessor_init file tr
      = (Inr (), [], tr @ [Log ERROR (ErrorLoadingRules e)])" if "file = Inl e" for e
    using that by (simp add: RuleProcessor_init_def load_rules_def load_body_def)
  have no_rules: "RuleProcessor_init file tr
      = (Inr (), [], tr @ [Log ERROR (ErrorLoadingRules e)])"
    if "file = Inr doc" and "json_getitem doc ''rules'' = Inl e" for doc e
    using that by (simp add: RuleProcessor_init_def load_rules_def load_body_def)
  have no_list: "RuleProcessor_init file tr
      = (Inr (), [], tr @ [Log ERROR (ErrorLoadingRules e)])"
    if "file = Inr doc" and "json_getitem doc ''rules'' = Inr entries"
      and "json_iter entries = Inl e" for doc entries e
    using that by (simp add: RuleProcessor_init_def load_rules_def load_body_def)
  have partial: "RuleProcessor_init file tr
      = (Inr (), rs, tr @ [Log ERROR (ErrorLoadingRules e)])"
    if "file = Inr doc" and "json_getitem doc ''rules'' = Inr entries"
      and "json_iter entries = Inr (good @ bad # rest)"
      and "map build_rule good = map Inr rs" and "build_rule bad = Inl e"
    for doc entries good bad rest rs e
  proof -
    from load_loop_good [OF that(4), of "bad # rest" "[]"] that(5)
    have "load_loop (good @ bad # rest) [] = (Inl e, rs)" by simp
    with that(1,2,3) show ?thesis
      by (simp add: RuleProcessor_init_def load_rules_def load_body_def)
  qed
  have whole: "RuleProcessor_init file tr = (Inr (), rs, tr)"
    if "file = Inr doc" and "json_getitem doc ''rules'' = Inr entries"
      and "json_iter entries = Inr items" and "map build_rule items = map Inr rs"
    for doc entries items rs
  proof -
    from load_loop_good [OF that(4), of "[]" "[]"]
    have "load_loop items [] = (Inr (), rs)" by simp
    with that(1,2,3) show ?thesis
      by (simp add: RuleProcessor_init_def load_rules_def load_body_def)
  qed
  from never unreadable no_rules no_list partial whole show ?thesis by blast
qed

theorem load_rules_keeps_rules_before_failure_witness:
  "RuleProcessor_init (Inl (OtherError ''JSONDecodeError'')) []
     = (Inr (), [], [Log ERROR (ErrorLoadingRules (OtherError ''JSONDecodeError''))])
   \<and> RuleProcessor_init (Inr (JObj [(''rules'', JArr [test_rule_json])])) []
     = (Inr (), [test_rule_loaded], [])
   \<and> RuleProcessor_init (Inr (JObj [(''rules'', JArr [JObj [], test_rule_json])])) []
     = (Inr (), [], [Log ERROR (ErrorLoadingRules (KeyError ''conditions''))])
   \<and> RuleProcessor_init (Inr (JArr [])) []
     = (Inr (), [], [Log ERROR (ErrorLoadingRules TypeError)])
   \<and> RuleProcessor_init (Inr (JObj [(''rules'', JNum 1)])) []
     = (Inr (), [], [Log ERROR (ErrorLoadingRules TypeError)])
   \<and> RuleProcessor_init (Inr (JObj [(''rules'', JArr [test_rule_json, JStr ''x''])])) []
     = (Inr (), [test_rule_loaded], [Log ERROR (ErrorLoadingRules TypeError)])"
proof -
  note T = load_rules_keeps_rules_before_failure
  have b: "build_rule test_rule_json = Inr test_rule_loaded" by code_simp
  have 1: "RuleProcessor_init (Inl (OtherError ''JSONDecodeError'')) []
     = (Inr (), [], [Log ERROR (ErrorLoadingRules (OtherError ''JSONDecodeError''))])"
    using T [of "Inl (OtherError ''JSONDecodeError'')" "[]"] by simp
  have "json_getitem (JObj [(''rules'', JArr [test_rule_json])]) ''rules''
          = Inr (JArr [test_rule_json])
        \<and> json_iter (JArr [test_rule_json]) = Inr [test_rule_json]
        \<and> map build_rule [test_rule_json] = map Inr [test_rule_loaded]"
    using b by (simp add: json_getitem_def json_iter_def get_item_def)
  with T [of "Inr (JObj [(''rules'', JArr [test_rule_json])])" "[]"]
  have 2: "RuleProcessor_init (Inr (JObj [(''rules'', JArr [test_rule_json])])) []
     = (Inr (), [test_rule_loaded], [])"
    by blast
  have "json_getitem (JObj [(''rules'', JArr [JObj [], test_rule_json])]) ''rules''
          = Inr (JArr [JObj [], test_rule_json])
        \<and> json_iter (JArr [JObj [], test_rule_json]) = Inr ([] @ JObj [] # [test_rule_json])
        \<and> map build_rule [] = map Inr []
        \<and> build_rule (JObj []) = Inl (KeyError ''conditions'')"
    by (simp add: json_getitem_def json_iter_def get_item_def build_rule_def)
  with T [of "Inr (JObj [(''rules'', JArr [JObj [], test_rule_json])])" "[]"]
  have 3: "RuleProcessor_init (Inr (JObj [(''rules'', JArr [JObj [], test_rule_json])])) []
     = (Inr (), [], [Log ERROR (ErrorLoadingRules (KeyError ''conditions''))])"
    by (metis append_Nil)
  have "json_getitem (JArr []) ''rules'' = Inl TypeError"
    by (simp add: json_getitem_def)
  with T [of "Inr (JArr [])" "[]"]
  have 4: "RuleProcessor_init (Inr (JArr [])) []
     = (Inr (), [], [Log ERROR (ErrorLoadingRules TypeError)])"
    by (metis append_Nil)
  have "json_getitem (JObj [(''rules'', JNum 1)]) ''rules'' = Inr (JNum 1)
        \<and> json_iter (JNum 1) = Inl TypeError"
    by (simp add: json_getitem_def json_iter_def get_item_def)
  with T [of "Inr (JObj [(''rules'', JNum 1)])" "[]"]
  have 5: "RuleProcessor_init (Inr (JObj [(''rules'', JNum 1)])) []
     = (Inr (), [], [Log ERROR (ErrorLoadingRules TypeError)])"
    by (metis append_Nil)
  have "json_getitem (JObj [(''rules'', JArr [test_rule_json, JStr ''x''])]) ''rules''
          = Inr (JArr [test_rule_json, JStr ''x''])
        \<and> json_iter (JArr [test_rule_json, JStr ''x'']) = Inr ([test_rule_json] @ JStr ''x'' # [])
        \<and> map build_rule [test_rule_json] = map Inr [test_rule_loaded]
        \<and> build_rule (JStr ''x'') = Inl TypeError"
    using b by (simp add: json_getitem_def json_iter_def get_item_def build_rule_def)
  with T [of "Inr (JObj [(''rules'', JArr [test_rule_json, JStr ''x''])])" "[]"]
  have 6: "RuleProcessor_init (Inr (JObj [(''rules'', JArr [test_rule_json, JStr ''x''])])) []
     = (Inr (), [test_rule_loaded], [Log ERROR (ErrorLoadingRules TypeError)])"
    by (metis append_Nil)
  from 1 2 3 4 5 6 show ?thesis by blast
qed

text \<open>
  As stated, claim C2 fails: in the document below the first rule is the one of the
  tests and the second has no conditions. The document does not construct, and the
  engine is left with the first rule, not with an empty list.
\<close>

theorem load_rules_partial_counterexample:
  "RuleProcessor_init (Inr second_rule_malformed) []
     = (Inr (), [test_rule_loaded], [Log ERROR (ErrorLoadingRules (KeyError ''conditions''))])"
  by code_simp

section \<open>The batch loop\<close>

lemma mark_calls_append: "mark_calls (xs @ ys) = mark_calls xs @ mark_calls ys"
  by (induction xs rule: mark_calls.induct) auto

lemma do_call_marks:
  "(\<forall>ids. c \<noteq> DbMarkAsProcessedBatch ids) \<Longrightarrow>
     mark_calls (snd (do_call ev c tr)) = mark_calls tr"
  by (cases c) (auto simp: do_call_def mark_calls_append split: option.splits)

lemma mark_both_marks: "mark_calls (snd (mark_both ev email b tr)) = mark_calls tr"
proof (cases "get_item email ''message_id''")
  case (Inl e)
  then show ?thesis by (simp add: mark_both_def)
next
  case (Inr mid)
  have 1: "mark_calls (snd (do_call ev (GmailMarkAsRead mid b) tr)) = mark_calls tr"
    by (rule do_call_marks) simp
  have 2: "mark_calls (snd (do_call ev (DbMarkAsRead mid b) tr1)) = mark_calls tr1" for tr1
    by (rule do_call_marks) simp
  from Inr 1 2 show ?thesis
    by (cases "do_call ev (GmailMarkAsRead mid b) tr")
       (auto simp: mark_both_def split: sum.splits)
qed

lemma move_both_marks: "mark_calls (snd (move_both ev email a tr)) = mark_calls tr"
proof (cases "get_item email ''message_id''")
  case (Inl e)
  then show ?thesis by (simp add: move_both_def)
next
  case mid: (Inr mid)
  show ?thesis
  proof (cases "get_item a ''label''")
    case (Inl e)
    with mid show ?thesis by (simp add: move_both_def)
  next
    case (Inr label)
    have 1: "mark_calls (snd (do_call ev (GmailMoveMessage mid label) tr)) = mark_calls tr"
      by (rule do_call_marks) simp
    have 2: "mark_calls (snd (do_call ev (DbUpdateLabels mid label) tr1)) = mark_calls tr1"
      for tr1
      by (rule do_call_marks) simp
    from mid Inr 1 2 show ?thesis
      by (cases "do_call ev (GmailMoveMessage mid label) tr")
         (auto simp: move_both_def split: sum.splits)
  qed
qed

lemma apply_action_marks: "mark_calls (snd (apply_action ev a email tr)) = mark_calls tr"
  by (simp add: apply_action_def mark_both_marks move_both_marks split: sum.splits)

lemma apply_action_list_marks:
  "mark_calls (snd (apply_action_list ev as email tr)) = mark_calls tr"
proof (induction as arbitrary: tr)
  case Nil
  then show ?case by simp
next
  case (Cons a as)
  from apply_action_marks [of ev a email tr] Cons.IH show ?case
    by (cases "apply_action ev a email tr") (auto split: sum.splits)
qed

lemma apply_actions_marks: "mark_calls (snd (apply_actions ev r email tr)) = mark_calls tr"
  using apply_action_list_marks [of ev "r_actions r" email tr]
  by (cases "apply_action_list ev (r_actions r) email tr")
     (auto simp: apply_actions_def mark_calls_append split: sum.splits)

lemma date_body_marks: "mark_calls (snd (date_body ev c v tr)) = mark_calls tr"
  by (cases v)
     (auto simp: date_body_def Let_def mark_calls_append split: sum.splits)

lemma evaluate_date_marks: "mark_calls (snd (evaluate_date ev c v tr)) = mark_calls tr"
  using date_body_marks [of ev c v tr]
  by (cases "date_body ev c v tr")
     (auto simp: evaluate_date_def mark_calls_append split: sum.splits)

lemma cond_evaluate_marks: "mark_calls (snd (cond_evaluate ev c email tr)) = mark_calls tr"
  by (auto simp: cond_evaluate_def Let_def evaluate_date_marks mark_calls_append
      split: option.splits if_splits)

lemma eval_conditions_marks:
  "mark_calls (snd (eval_conditions ev cs email tr)) = mark_calls tr"
proof (induction cs arbitrary: tr)
  case Nil
  then show ?case by simp
next
  case (Cons c cs)
  obtain res tr1 where c: "cond_evaluate ev c email tr = (res, tr1)"
    by (cases "cond_evaluate ev c email tr")
  with cond_evaluate_marks [of ev c email tr] have 1: "mark_calls tr1 = mark_calls tr" by simp
  from Cons.IH [of tr1] 1 c show ?case
    by (cases "eval_conditions ev cs email tr1") (auto split: sum.splits)
qed

lemma rule_evaluate_marks: "mark_calls (snd (rule_evaluate ev r email tr)) = mark_calls tr"
  using eval_conditions_marks [of ev "r_conditions r" email tr]
  by (cases "eval_conditions ev (r_conditions r) email tr")
     (auto simp: rule_evaluate_def split: sum.splits)

lemma process_rules_marks: "mark_calls (snd (process_rules ev rs email tr)) = mark_calls tr"
proof (induction rs arbitrary: tr)
  case Nil
  then show ?case by simp
next
  case (Cons r rs)
  obtain res tr1 where e: "rule_evaluate ev r email tr = (res, tr1)"
    by (cases "rule_evaluate ev r email tr")
  with rule_evaluate_marks [of ev r email tr] have 1: "mark_calls tr1 = mark_calls tr" by simp
  obtain ok tr2 where a: "apply_actions ev r email tr1 = (ok, tr2)"
    by (cases "apply_actions ev r email tr1")
  with apply_actions_marks [of ev r email tr1] 1 have 2: "mark_calls tr2 = mark_calls tr"
    by simp
  from e a 1 2 Cons.IH show ?case
    by (auto simp: mark_calls_append split: sum.splits)
qed

lemma process_email_marks: "mark_calls (snd (process_email ev rs email tr)) = mark_calls tr"
  using process_rules_marks [of ev rs email tr]
  by (cases "process_rules ev rs email tr")
     (auto simp: process_email_def mark_calls_append split: sum.splits)

lemma process_email_returns:
  "map_of email ''message_id'' = Some mid \<Longrightarrow> \<exists>b. fst (process_email ev rs email tr) = Inr b"
  by (cases "process_rules ev rs email tr")
     (auto simp: process_email_def get_item_def split: sum.splits)

lemma process_loop_ids:
  assumes "\<forall>m\<in>set batch. map_of m ''message_id'' \<noteq> None"
  shows "fst (process_loop ev rules batch ids tr)
           = Inr (ids @ returned_true_ids ev rules batch tr)
       \<and> mark_calls (snd (process_loop ev rules batch ids tr)) = mark_calls tr"
  using assms
proof (induction batch arbitrary: ids tr)
  case Nil
  then show ?case by simp
next
  case (Cons m batch)
  then obtain mid where mid: "map_of m ''message_id'' = Some mid" by auto
  obtain res tr1 where p: "process_email ev rules m tr = (res, tr1)"
    by (cases "process_email ev rules m tr")
  with process_email_returns [OF mid, of ev rules tr] obtain b where b: "res = Inr b" by auto
  from p process_email_marks [of ev rules m tr] have 1: "mark_calls tr1 = mark_calls tr"
    by simp
  from Cons.prems have rest: "\<forall>m\<in>set batch. map_of m ''message_id'' \<noteq> None" by simp
  from Cons.IH [OF rest] mid p b 1 show ?case
    by (simp add: get_item_def)
qed

lemma normalize_labels_keeps_id:
  "normalize_labels m = Inr m1 \<Longrightarrow> map_of m1 ''message_id'' = map_of m ''message_id''"
  by (auto simp: normalize_labels_def update_conv' split: sum.splits)

lemma normalize_batch_keeps_ids:
  "normalize_batch batch = Inr batch1 \<Longrightarrow>
     \<forall>m\<in>set batch. map_of m ''message_id'' \<noteq> None \<Longrightarrow>
     \<forall>m\<in>set batch1. map_of m ''message_id'' \<noteq> None"
proof (induction batch arbitrary: batch1)
  case Nil
  then show ?case by simp
next
  case (Cons m batch)
  then show ?case
    by (auto split: sum.splits simp: normalize_labels_keeps_id)
qed

text \<open>
  Claim C1, as amended. Take a batch whose emails all have an identifier and whose
  labels join, and let the batched insert return. Then the batch makes one call of
  \<^verbatim>\<open>mark_as_processed_batch\<close>, with exactly the identifiers of the emails for which
  \<^verbatim>\<open>process_email\<close> returned true, in the order of the batch, and makes no such call
  when there is none. Whether a rule matched the email plays no part.
\<close>

theorem marks_those_that_returned_true:
  assumes "normalize_batch batch = Inr batch1"
    and "\<forall>m\<in>set batch. map_of m ''message_id'' \<noteq> None"
    and "raises ev (tr @ [Log INFO (ProcessingBatch (length batch))]) (DbAddEmailsBatch batch1)
           = None"
  shows "mark_calls (snd (process_batch ev rules batch total_processed tr))
           = mark_calls tr
             @ (let ids = returned_true_ids ev rules batch1
                            (tr @ [Log INFO (ProcessingBatch (length batch)),
                                   Done (DbAddEmailsBatch batch1)])
                in if ids = [] then [] else [ids])"
proof -
  let ?tr0 = "tr @ [Log INFO (ProcessingBatch (length batch))]"
  let ?tr1 = "tr @ [Log INFO (ProcessingBatch (length batch)), Done (DbAddEmailsBatch batch1)]"
  let ?ids = "returned_true_ids ev rules batch1 ?tr1"
  have add: "do_call ev (DbAddEmailsBatch batch1) ?tr0 = (Inr (), ?tr1)"
    using assms(3) by (simp add: do_call_def)
  obtain res tr2 where loop: "process_loop ev rules batch1 [] ?tr1 = (res, tr2)"
    by (cases "process_loop ev rules batch1 [] ?tr1")
  from process_loop_ids [OF normalize_batch_keeps_ids [OF assms(1,2)], of ev rules "[]" ?tr1]
    loop
  have res: "res = Inr ?ids" and m2: "mark_calls tr2 = mark_calls tr"
    by (simp_all add: mark_calls_append)
  show ?thesis
  proof (cases "?ids = []")
    case True
    with assms(1) add loop res m2 show ?thesis
      by (simp add: process_batch_def batch_body_def)
  next
    case False
    with assms(1) add loop res m2 show ?thesis
      by (auto simp: process_batch_def batch_body_def Let_def do_call_def mark_calls_append
          split: option.splits)
  qed
qed

theorem marks_those_that_returned_true_witness:
  "mark_calls (snd (process_batch env_ok [rule_of_conditions ''all'' [far_past]]
                      [dated_email_of ''m1'' ''Test Subject'' (PList [PStr ''INBOX'']),
                       email_of ''m2'' ''Hello'' (PList [PStr ''INBOX'', PStr ''UNREAD''])]
                      0 []))
     = [[PStr ''m2'']]"
proof -
  let ?batch = "[dated_email_of ''m1'' ''Test Subject'' (PList [PStr ''INBOX'']),
                 email_of ''m2'' ''Hello'' (PList [PStr ''INBOX'', PStr ''UNREAD''])]"
  let ?batch1 = "[dated_email_of ''m1'' ''Test Subject'' (PStr ''INBOX''),
                  email_of ''m2'' ''Hello'' (PStr ''INBOX,UNREAD'')]"
  let ?rules = "[rule_of_conditions ''all'' [far_past]]"
  have h1: "normalize_batch ?batch = Inr ?batch1" by code_simp
  have h2: "\<forall>m\<in>set ?batch. map_of m ''message_id'' \<noteq> None"
    by (simp add: email_of_def dated_email_of_def)
  have h3: "raises env_ok ([] @ [Log INFO (ProcessingBatch (length ?batch))])
              (DbAddEmailsBatch ?batch1) = None"
    by (simp add: env_ok_def)
  have ids: "returned_true_ids env_ok ?rules ?batch1
               ([] @ [Log INFO (ProcessingBatch (length ?batch)),
                      Done (DbAddEmailsBatch ?batch1)])
             = [PStr ''m2'']"
    by code_simp
  note T = marks_those_that_returned_true [OF h1 h2 h3, of ?rules 0]
  show ?thesis by (simp only: T ids) simp
qed

text \<open>
  As stated, claim C1 fails: the one rule below does not match the second email, and
  the identifier of that email is in the call of \<^verbatim>\<open>mark_as_processed_batch\<close> all the
  same.
\<close>

theorem marks_unmatched_message_counterexample:
  "fst (rule_evaluate env_ok (rule_of_actions ''Test Rule'' [[(''type'', ''mark_as_read'')]])
          (email_of ''m2'' ''Hello'' (PStr ''INBOX'')) []) = Inr False
   \<and> process_batch env_ok [rule_of_actions ''Test Rule'' [[(''type'', ''mark_as_read'')]]]
        [email_of ''m1'' ''Test Subject'' (PList [PStr ''INBOX'']),
         email_of ''m2'' ''Hello'' (PList [PStr ''INBOX''])]
        0 []
      = (2, [Log INFO (ProcessingBatch 2),
             Done (DbAddEmailsBatch [email_of ''m1'' ''Test Subject'' (PStr ''INBOX''),
                                     email_of ''m2'' ''Hello'' (PStr ''INBOX'')]),
             Done (GmailMarkAsRead (PStr ''m1'') True), Done (DbMarkAsRead (PStr ''m1'') True),
             Log DEBUG (SuccessfullyApplied ''Test Rule''),
             Log INFO (MarkedProcessed 2 2),
             Done (DbMarkAsProcessedBatch [PStr ''m1'', PStr ''m2''])])"
  by code_simp

end
